theory Spec2Isabelle
  imports Complex_Main
begin

section \<open>Data model of \<open>src/index.js\<close>\<close>

text \<open>
  JavaScript numbers (pixel coordinates, millisecond intervals) are modelled as
  \<^typ>\<open>real\<close>. A React component instance is identified by a natural number (its object
  identity); a scroll container element is identified by a natural number as well.
\<close>

text \<open>The \<open>offset\<close> prop: a number or an array of numbers (\<open>PropTypes.oneOfType\<close>).\<close>

datatype offset_prop = OffsetNum real | OffsetArr "real list"

text \<open>The \<open>throttle\<close> and \<open>debounce\<close> props: \<open>undefined\<close>, a number or a boolean.\<close>

datatype rate_prop = Undefined | Number real | Boolean bool

text \<open>The props read by the module (\<open>height\<close> and \<open>children\<close> are only used by \<open>render\<close>).\<close>

record props =
  once :: bool
  offset :: offset_prop
  overflow :: bool
  resize :: bool
  scroll :: bool
  throttle :: rate_prop
  debounce :: rate_prop

text \<open>\<open>LazyLoad.defaultProps\<close>.\<close>

definition defaultProps :: props where
  "defaultProps = \<lparr>once = False, offset = OffsetNum 0, overflow = False, resize = False,
     scroll = True, throttle = Undefined, debounce = Undefined\<rparr>"

text \<open>
  A component instance: its props and the \<open>visible\<close> field set by the constructor.
  The module never writes \<open>props\<close>; an instance keeps the props it was created with.
\<close>

record component =
  props :: props
  visible :: bool

text \<open>
  Modelled from the spec: the helper \<open>scrollParent\<close> (\<open>utils/scrollParent\<close>) is not
  part of the sources. By its contract it returns the nearest scrollable ancestor of a
  node, or the document viewport when there is none; its result is the document or a
  container element.
\<close>

datatype parent = Document | Element nat

text \<open>What the module reads from a rendered DOM node.\<close>

record node =
  rect_top :: real
  rect_height :: real
  offsetTop :: real

text \<open>
  A snapshot of the browser at the moment a callback runs. \<open>findDOMNode\<close> is
  \<open>ReactDom.findDOMNode(component)\<close> (\<open>None\<close> is \<open>null\<close>); \<open>pageXOffset\<close>,
  \<open>compatMode\<close> and \<open>innerHeight\<close> may be \<open>undefined\<close> (\<open>None\<close>). The field
  \<open>scrollParent\<close> gives \<open>scrollParent(ReactDom.findDOMNode(component))\<close> for each
  component, and \<open>el_scrollTop\<close>, \<open>el_offsetHeight\<close> the geometry of each container.
\<close>

record dom =
  findDOMNode :: "nat \<Rightarrow> node option"
  scrollParent :: "nat \<Rightarrow> parent"
  el_scrollTop :: "nat \<Rightarrow> real"
  el_offsetHeight :: "nat \<Rightarrow> real"
  pageXOffset :: "real option"
  pageYOffset :: real
  compatMode :: "string option"
  documentElement_scrollTop :: real
  body_scrollTop :: real
  innerHeight :: "real option"
  documentElement_clientHeight :: real

text \<open>
  Modelled from the spec: the helpers \<open>throttle\<close> and \<open>debounce\<close> (\<open>utils/throttle\<close>,
  \<open>utils/debounce\<close>) are not part of the sources. Each wraps \<open>lazyLoadHandler\<close> with an
  interval; the wrapper is represented by its policy and its interval.
\<close>

datatype limiter = Throttle real | Debounce real

datatype error = TypeError

text \<open>
  Modelled from the spec: the helpers \<open>on\<close> and \<open>off\<close> (\<open>utils/event\<close>) are not part of
  the sources. They attach and detach a callback idempotently, as \<open>addEventListener\<close>
  and \<open>removeEventListener\<close> do, so a binding of the single shared handler is a boolean
  (\<open>window_scroll\<close>, \<open>window_resize\<close>) and, for containers, a set of elements
  (\<open>container_scroll\<close>).

  The module state: \<open>listeners\<close>, \<open>pending\<close>, \<open>finalLazyLoadHandler\<close> (\<open>None\<close> is
  \<open>null\<close>), the component objects with the counter that names the next one, the log
  of \<open>forceUpdate\<close> calls, the listener bindings held by the browser, and \<open>listened\<close>,
  the set of elements carrying the attribute \<open>LISTEN_FLAG\<close>.
\<close>

record state =
  listeners :: "nat list"
  pending :: "nat list"
  finalLazyLoadHandler :: "limiter option"
  comps :: "nat \<Rightarrow> component"
  next_id :: nat
  forceUpdates :: "nat list"
  window_scroll :: bool
  window_resize :: bool
  container_scroll :: "nat set"
  listened :: "nat set"

definition init :: state where
  "init = \<lparr>listeners = [], pending = [], finalLazyLoadHandler = None,
     comps = (\<lambda>_. \<lparr>props = defaultProps, visible = False\<rparr>), next_id = 0,
     forceUpdates = [], window_scroll = False, window_resize = False,
     container_scroll = {}, listened = {}\<rparr>"

section \<open>The visibility tests\<close>

text \<open>
  \<open>Array.isArray(offset) ? offset : [offset, offset]\<close>, and an array read \<open>offsets[i]\<close>,
  which is \<open>undefined\<close> (\<open>None\<close>) out of range.
\<close>

definition offsets :: "offset_prop \<Rightarrow> real list" where
  "offsets off = (case off of OffsetArr xs \<Rightarrow> xs | OffsetNum x \<Rightarrow> [x, x])"

definition js_index :: "'a list \<Rightarrow> nat \<Rightarrow> 'a option" where
  "js_index xs i = (if i < length xs then Some (xs ! i) else None)"

text \<open>
  The two comparisons of the return statements. Arithmetic on \<open>undefined\<close> gives \<open>NaN\<close>,
  and every comparison with \<open>NaN\<close> is false.
\<close>

definition leading_ok :: "real \<Rightarrow> real \<Rightarrow> real option \<Rightarrow> bool" where
  "leading_ok elementTop scrollTop off0 =
     (case off0 of None \<Rightarrow> False | Some a \<Rightarrow> elementTop \<ge> scrollTop - a)"

definition trailing_ok :: "real \<Rightarrow> real \<Rightarrow> real option \<Rightarrow> bool" where
  "trailing_ok elementBottom bottom off1 =
     (case off1 of None \<Rightarrow> False | Some b \<Rightarrow> elementBottom - b \<le> bottom)"

text \<open>\<open>checkOverflowVisible(component, parent)\<close>, for a container element \<open>e\<close>.\<close>

definition checkOverflowVisible :: "dom \<Rightarrow> node \<Rightarrow> props \<Rightarrow> nat \<Rightarrow> bool" where
  "checkOverflowVisible d n p e =
     (let scrollTop = el_scrollTop d e;
          parentBottom = scrollTop + el_offsetHeight d e;
          elementHeight = rect_height n;
          offs = offsets (offset p);
          elementTop = offsetTop n;
          elementBottom = elementTop + elementHeight
      in leading_ok elementTop scrollTop (js_index offs 0) \<and>
         trailing_ok elementBottom parentBottom (js_index offs 1))"

text \<open>The scroll offset and the viewport height read by \<open>checkNormalVisible\<close>.\<close>

definition scrollTop_of :: "dom \<Rightarrow> real" where
  "scrollTop_of d =
     (let supportPageOffset = (pageXOffset d \<noteq> None);
          isCSS1Compat = (compatMode d = Some ''CSS1Compat'')
      in if supportPageOffset then pageYOffset d
         else if isCSS1Compat then documentElement_scrollTop d
         else body_scrollTop d)"

definition windowInnerHeight :: "dom \<Rightarrow> real" where
  "windowInnerHeight d =
     (case innerHeight d of
        None \<Rightarrow> documentElement_clientHeight d
      | Some h \<Rightarrow> if h = 0 then documentElement_clientHeight d else h)"

text \<open>\<open>checkNormalVisible(component)\<close>.\<close>

definition checkNormalVisible :: "dom \<Rightarrow> node \<Rightarrow> props \<Rightarrow> bool" where
  "checkNormalVisible d n p =
     (let top = rect_top n;
          elementHeight = rect_height n;
          scrollTop = scrollTop_of d;
          elementTop = top + scrollTop;
          elementBottom = elementTop + elementHeight;
          documentBottom = scrollTop + windowInnerHeight d;
          offs = offsets (offset p)
      in leading_ok elementTop scrollTop (js_index offs 0) \<and>
         trailing_ok elementBottom documentBottom (js_index offs 1))"

section \<open>The check pass\<close>

text \<open>
  The constant \<open>visible\<close> computed in \<open>checkVisible\<close>: \<open>isOverflow\<close> holds when the
  scroll parent is not the document.
\<close>

definition computedVisible :: "dom \<Rightarrow> nat \<Rightarrow> node \<Rightarrow> props \<Rightarrow> bool" where
  "computedVisible d c n p =
     (case scrollParent d c of
        Element e \<Rightarrow> checkOverflowVisible d n p e
      | Document \<Rightarrow> checkNormalVisible d n p)"

definition set_visible :: "nat \<Rightarrow> bool \<Rightarrow> state \<Rightarrow> state" where
  "set_visible c b s = s\<lparr>comps := (comps s)(c := (comps s c)\<lparr>visible := b\<rparr>)\<rparr>"

text \<open>\<open>checkVisible(component)\<close>.\<close>

definition checkVisible :: "dom \<Rightarrow> nat \<Rightarrow> state \<Rightarrow> state" where
  "checkVisible d c s =
     (case findDOMNode d c of
        None \<Rightarrow> s
      | Some n \<Rightarrow>
          if computedVisible d c n (props (comps s c)) then
            if visible (comps s c) then s
            else
              let s1 = (if once (props (comps s c)) then s\<lparr>pending := pending s @ [c]\<rparr> else s);
                  s2 = set_visible c True s1
              in s2\<lparr>forceUpdates := forceUpdates s2 @ [c]\<rparr>
          else set_visible c False s)"

text \<open>\<open>Array.prototype.indexOf\<close> and \<open>splice(index, 1)\<close>.\<close>

fun indexOf :: "'a list \<Rightarrow> 'a \<Rightarrow> int" where
  "indexOf [] x = - 1"
| "indexOf (y # ys) x =
     (if y = x then 0 else (let i = indexOf ys x in if i = - 1 then - 1 else i + 1))"

definition splice1 :: "'a list \<Rightarrow> int \<Rightarrow> 'a list" where
  "splice1 xs i = take (nat i) xs @ drop (nat i + 1) xs"

definition remove_listener :: "nat \<Rightarrow> state \<Rightarrow> state" where
  "remove_listener c s =
     (let index = indexOf (listeners s) c
      in if index \<noteq> - 1 then s\<lparr>listeners := splice1 (listeners s) index\<rparr> else s)"

text \<open>\<open>purgePending()\<close>.\<close>

definition purgePending :: "state \<Rightarrow> state" where
  "purgePending s = (fold remove_listener (pending s) s)\<lparr>pending := []\<rparr>"

lemma checkVisible_listeners [simp]: "listeners (checkVisible d c s) = listeners s"
  by (simp add: checkVisible_def set_visible_def Let_def split: option.split)

text \<open>The loop of \<open>lazyLoadHandler\<close>, which reads \<open>listeners.length\<close> at every step.\<close>

function lazyLoadLoop :: "dom \<Rightarrow> nat \<Rightarrow> state \<Rightarrow> state" where
  "lazyLoadLoop d i s =
     (if i < length (listeners s)
      then lazyLoadLoop d (i + 1) (checkVisible d (listeners s ! i) s)
      else s)"
  by pat_completeness auto
termination
  by (relation "measure (\<lambda>(d, i, s). length (listeners s) - i)") auto

declare lazyLoadLoop.simps [simp del]

text \<open>\<open>lazyLoadHandler()\<close>.\<close>

definition lazyLoadHandler :: "dom \<Rightarrow> state \<Rightarrow> state" where
  "lazyLoadHandler d s = purgePending (lazyLoadLoop d 0 s)"

section \<open>Mounting and unmounting\<close>

text \<open>
  \<open>componentDidMount()\<close> of the component \<open>c\<close>. A document has no \<open>getAttribute\<close>
  method, so the call on it raises; the state reached at that point is returned with
  the error.
\<close>

definition createHandler :: "props \<Rightarrow> state \<Rightarrow> state" where
  "createHandler p s =
     (if finalLazyLoadHandler s = None then
        (if debounce p \<noteq> Undefined
         then s\<lparr>finalLazyLoadHandler :=
                  Some (Debounce (case throttle p of Number t \<Rightarrow> t | _ \<Rightarrow> 300))\<rparr>
         else s\<lparr>finalLazyLoadHandler :=
                  Some (Throttle (case debounce p of Number t \<Rightarrow> t | _ \<Rightarrow> 300))\<rparr>)
      else s)"

definition bindContainer :: "nat \<Rightarrow> state \<Rightarrow> state" where
  "bindContainer e s =
     (if e \<in> listened s then s
      else s\<lparr>container_scroll := insert e (container_scroll s),
             listened := insert e (listened s)\<rparr>)"

definition bindWindow :: "props \<Rightarrow> state \<Rightarrow> state" where
  "bindWindow p s =
     (let s1 = (if scroll p then s\<lparr>window_scroll := True\<rparr> else s)
      in if resize p then s1\<lparr>window_resize := True\<rparr> else s1)"

definition register :: "dom \<Rightarrow> nat \<Rightarrow> state \<Rightarrow> state" where
  "register d c s = checkVisible d c (s\<lparr>listeners := listeners s @ [c]\<rparr>)"

definition componentDidMount :: "dom \<Rightarrow> nat \<Rightarrow> state \<Rightarrow> (error \<times> state) + state" where
  "componentDidMount d c s =
     (let p = props (comps s c);
          s1 = createHandler p s
      in if overflow p then
           (case scrollParent d c of
              Document \<Rightarrow> Inl (TypeError, s1)
            | Element e \<Rightarrow> Inr (register d c (bindContainer e s1)))
         else if length (listeners s1) = 0 then Inr (register d c (bindWindow p s1))
         else Inr (register d c s1))"

text \<open>
  Mounting a new element: the constructor creates a fresh component object with
  \<open>visible = false\<close>, then React calls \<open>componentDidMount\<close> on it.
\<close>

definition new_component :: "props \<Rightarrow> state \<Rightarrow> state" where
  "new_component p s =
     s\<lparr>comps := (comps s)(next_id s := \<lparr>props = p, visible = False\<rparr>),
       next_id := next_id s + 1\<rparr>"

definition mount :: "props \<Rightarrow> dom \<Rightarrow> state \<Rightarrow> (error \<times> state) + state" where
  "mount p d s = componentDidMount d (next_id s) (new_component p s)"

text \<open>
  \<open>componentWillUnmount()\<close> of the component \<open>c\<close>. A document has
  \<open>removeEventListener\<close> but no \<open>removeAttribute\<close> method, so that call raises.
\<close>

definition unbindWindow :: "state \<Rightarrow> state" where
  "unbindWindow s =
     (if length (listeners s) = 0 then s\<lparr>window_resize := False, window_scroll := False\<rparr>
      else s)"

definition unbindContainer :: "nat \<Rightarrow> state \<Rightarrow> state" where
  "unbindContainer e s =
     s\<lparr>container_scroll := container_scroll s - {e}, listened := listened s - {e}\<rparr>"

definition componentWillUnmount :: "dom \<Rightarrow> nat \<Rightarrow> state \<Rightarrow> (error \<times> state) + state" where
  "componentWillUnmount d c s =
     (if overflow (props (comps s c)) then
        (case scrollParent d c of
           Document \<Rightarrow> Inl (TypeError, s)
         | Element e \<Rightarrow> Inr (unbindWindow (remove_listener c (unbindContainer e s))))
      else Inr (unbindWindow (remove_listener c s)))"

section \<open>Runs of the module\<close>

text \<open>
  The callbacks the host invokes, each with the browser snapshot at that moment: a new
  element mounts, a mounted element unmounts, or the rate limiter lets
  \<open>lazyLoadHandler\<close> run. After an exception the module state stays as it was left.
\<close>

datatype event = Mount props dom | Unmount nat dom | Fire dom

definition state_of :: "(error \<times> state) + state \<Rightarrow> state" where
  "state_of r = (case r of Inl (e, s) \<Rightarrow> s | Inr s \<Rightarrow> s)"

fun step :: "event \<Rightarrow> state \<Rightarrow> state" where
  "step (Mount p d) s = state_of (mount p d s)"
| "step (Unmount c d) s = state_of (componentWillUnmount d c s)"
| "step (Fire d) s = lazyLoadHandler d s"

definition run :: "event list \<Rightarrow> state \<Rightarrow> state" where
  "run evs s = fold step evs s"

section \<open>Example inputs\<close>

text \<open>
  Concrete props and browser snapshots used to run the module. \<open>snapshot\<close> is a
  standards-mode browser with page scroll offset \<open>y\<close> and viewport height \<open>h\<close>, in
  which every container has scroll offset \<open>cy\<close> and height \<open>ch\<close>.
\<close>

definition box :: "real \<Rightarrow> real \<Rightarrow> real \<Rightarrow> node" where
  "box t h ot = \<lparr>rect_top = t, rect_height = h, offsetTop = ot\<rparr>"

definition snapshot ::
  "(nat \<Rightarrow> node option) \<Rightarrow> (nat \<Rightarrow> parent) \<Rightarrow> real \<Rightarrow> real \<Rightarrow> real \<Rightarrow> real \<Rightarrow> dom" where
  "snapshot nodes parents y h cy ch =
     \<lparr>findDOMNode = nodes, scrollParent = parents, el_scrollTop = (\<lambda>_. cy),
      el_offsetHeight = (\<lambda>_. ch), pageXOffset = Some 0, pageYOffset = y,
      compatMode = Some ''CSS1Compat'', documentElement_scrollTop = y, body_scrollTop = y,
      innerHeight = Some h, documentElement_clientHeight = h\<rparr>"

text \<open>
  \<open>page y\<close>: every element is 50 pixels high at document offset 500, directly in the
  document; the page is scrolled to \<open>y\<close> and the viewport is 400 pixels high.
\<close>

definition page :: "real \<Rightarrow> dom" where
  "page y = snapshot (\<lambda>_. Some (box (500 - y) 50 500)) (\<lambda>_. Document) y 400 0 0"

text \<open>
  \<open>panel\<close>: every element lies inside the scroll container 7 (300 pixels high, not
  scrolled), at offset 1000 from the container's top, so it is out of view.
\<close>

definition panel :: dom where
  "panel = snapshot (\<lambda>_. Some (box 1000 50 1000)) (\<lambda>_. Element 7) 0 400 0 300"

text \<open>
  \<open>nested\<close>: every element lies inside the scroll container 7 (300 pixels high, not
  scrolled) at offset 10 from its top, while its bounding rectangle is at 1000 in a
  viewport of height 400: in view of the container, out of view of the document.
\<close>

definition nested :: dom where
  "nested = snapshot (\<lambda>_. Some (box 1000 50 10)) (\<lambda>_. Element 7) 0 400 0 300"

definition onceProps :: props where
  "onceProps = defaultProps\<lparr>once := True\<rparr>"

definition overflowProps :: props where
  "overflowProps = defaultProps\<lparr>overflow := True\<rparr>"

section \<open>Notions used to state the properties\<close>

text \<open>
  The condition under which \<open>checkVisible\<close> reaches its inner branch (the element has
  a node, the computed visibility is true and the stored flag is false): the
  Hidden-to-Visible transition, at which \<open>forceUpdate\<close> is called.
\<close>

definition becameVisible :: "dom \<Rightarrow> state \<Rightarrow> nat \<Rightarrow> bool" where
  "becameVisible d s c =
     (case findDOMNode d c of
        None \<Rightarrow> False
      | Some n \<Rightarrow> computedVisible d c n (props (comps s c)) \<and> \<not> visible (comps s c))"

text \<open>
  The bookkeeping of \<open>once\<close> elements while the elements of \<open>X\<close> are still to be
  checked: a \<open>once\<close> element was redrawn at most once, and one that was redrawn has its
  flag set as long as it is in \<open>X\<close>, and is queued in \<open>pending\<close> as long as it is
  registered.
\<close>

definition once_ok :: "nat set \<Rightarrow> state \<Rightarrow> bool" where
  "once_ok X s \<longleftrightarrow>
     (\<forall>c. once (props (comps s c)) \<longrightarrow>
        count_list (forceUpdates s) c \<le> 1 \<and>
        (c \<in> set (forceUpdates s) \<longrightarrow>
           (c \<in> X \<longrightarrow> visible (comps s c)) \<and>
           (c \<in> set (listeners s) \<longrightarrow> c \<in> set (pending s))))"

text \<open>
  The invariant of the module state between callbacks: no element is registered twice,
  every component mentioned has been constructed, and the \<open>once\<close> bookkeeping holds for
  the whole registry.
\<close>

definition registry_inv :: "state \<Rightarrow> bool" where
  "registry_inv s \<longleftrightarrow>
     distinct (listeners s) \<and>
     (\<forall>c \<in> set (listeners s) \<union> set (pending s) \<union> set (forceUpdates s). c < next_id s) \<and>
     once_ok (set (listeners s)) s"

text \<open>
  \<open>allocated p s s0\<close>: \<open>s0\<close> is \<open>s\<close> after the constructor has created a component
  with props \<open>p\<close>, up to the registry and the listener bindings.
\<close>

definition allocated :: "props \<Rightarrow> state \<Rightarrow> state \<Rightarrow> bool" where
  "allocated p s s0 \<longleftrightarrow>
     pending s0 = pending s \<and> forceUpdates s0 = forceUpdates s \<and>
     next_id s0 = Suc (next_id s) \<and>
     comps s0 = (comps s)(next_id s := \<lparr>props = p, visible = False\<rparr>)"

text \<open>\<open>gone c s\<close>: the component \<open>c\<close> exists and is not registered.\<close>

definition gone :: "nat \<Rightarrow> state \<Rightarrow> bool" where
  "gone c s \<longleftrightarrow> c < next_id s \<and> c \<notin> set (listeners s)"

section \<open>Basic facts\<close>

subsection \<open>The visibility tests as inequalities\<close>

lemma checkNormalVisible_char:
  "js_index (offsets (offset p)) 0 = Some a \<Longrightarrow> js_index (offsets (offset p)) 1 = Some b \<Longrightarrow>
   checkNormalVisible d n p \<longleftrightarrow>
     rect_top n + scrollTop_of d \<ge> scrollTop_of d - a \<and>
     (rect_top n + scrollTop_of d + rect_height n) - b \<le> scrollTop_of d + windowInnerHeight d"
  by (simp add: checkNormalVisible_def Let_def leading_ok_def trailing_ok_def)

lemma checkOverflowVisible_char:
  "js_index (offsets (offset p)) 0 = Some a \<Longrightarrow> js_index (offsets (offset p)) 1 = Some b \<Longrightarrow>
   checkOverflowVisible d n p e \<longleftrightarrow>
     offsetTop n \<ge> el_scrollTop d e - a \<and>
     (offsetTop n + rect_height n) - b \<le> el_scrollTop d e + el_offsetHeight d e"
  by (simp add: checkOverflowVisible_def Let_def leading_ok_def trailing_ok_def)

text \<open>The document test in terms of the \<open>offset\<close> prop itself.\<close>

lemma checkNormalVisible_num:
  "offset p = OffsetNum x \<Longrightarrow>
   checkNormalVisible d n p \<longleftrightarrow>
     rect_top n + scrollTop_of d \<ge> scrollTop_of d - x \<and>
     (rect_top n + scrollTop_of d + rect_height n) - x \<le> scrollTop_of d + windowInnerHeight d"
  by (rule checkNormalVisible_char) (simp_all add: offsets_def js_index_def)

lemma checkNormalVisible_arr:
  "offset p = OffsetArr (a # b # r) \<Longrightarrow>
   checkNormalVisible d n p \<longleftrightarrow>
     rect_top n + scrollTop_of d \<ge> scrollTop_of d - a \<and>
     (rect_top n + scrollTop_of d + rect_height n) - b \<le> scrollTop_of d + windowInnerHeight d"
  by (rule checkNormalVisible_char) (simp_all add: offsets_def js_index_def)

lemma scrollTop_of_snapshot [simp]: "scrollTop_of (snapshot nodes parents y h cy ch) = y"
  by (simp add: scrollTop_of_def snapshot_def)

lemma windowInnerHeight_snapshot [simp]:
  "h \<noteq> 0 \<Longrightarrow> windowInnerHeight (snapshot nodes parents y h cy ch) = h"
  by (simp add: windowInnerHeight_def snapshot_def)

subsection \<open>\<open>indexOf\<close> followed by \<open>splice\<close> removes the first occurrence\<close>

lemma indexOf_ge: "indexOf xs x \<ge> - 1"
  by (induction xs) (auto simp: Let_def)

lemma indexOf_notin: "indexOf xs x = - 1 \<longleftrightarrow> x \<notin> set xs"
proof (induction xs)
  case Nil
  show ?case by simp
next
  case (Cons y ys)
  have "indexOf ys x \<ge> - 1" by (rule indexOf_ge)
  then show ?case using Cons by (auto simp: Let_def)
qed

lemma splice1_indexOf: "x \<in> set xs \<Longrightarrow> splice1 xs (indexOf xs x) = remove1 x xs"
proof (induction xs)
  case Nil
  then show ?case by simp
next
  case (Cons y ys)
  show ?case
  proof (cases "y = x")
    case True
    then show ?thesis by (simp add: splice1_def)
  next
    case False
    with Cons.prems have m: "x \<in> set ys" by simp
    then have ne: "indexOf ys x \<noteq> - 1" by (simp add: indexOf_notin)
    moreover have "indexOf ys x \<ge> - 1" by (rule indexOf_ge)
    ultimately have "indexOf ys x \<ge> 0" by linarith
    then have "nat (indexOf ys x + 1) = Suc (nat (indexOf ys x))" by linarith
    with False ne Cons.IH [OF m] show ?thesis
      by (simp add: splice1_def Let_def)
  qed
qed

lemma remove_listener_eq: "remove_listener c s = s\<lparr>listeners := remove1 c (listeners s)\<rparr>"
  by (cases "c \<in> set (listeners s)")
     (simp_all add: remove_listener_def Let_def indexOf_notin splice1_indexOf remove1_idem)

lemma fold_remove_listener:
  "fold remove_listener cs s = s\<lparr>listeners := fold remove1 cs (listeners s)\<rparr>"
  by (induction cs arbitrary: s) (simp_all add: remove_listener_eq)

lemma purgePending_eq:
  "purgePending s = s\<lparr>listeners := fold remove1 (pending s) (listeners s), pending := []\<rparr>"
  by (simp add: purgePending_def fold_remove_listener)

subsection \<open>The loop of the check pass is a fold over the registry\<close>

lemma lazyLoadLoop_fold:
  "lazyLoadLoop d i s = fold (checkVisible d) (drop i (listeners s)) s"
proof (induction d i s rule: lazyLoadLoop.induct)
  case (1 d i s)
  show ?case
  proof (cases "i < length (listeners s)")
    case True
    then have "drop i (listeners s) = listeners s ! i # drop (Suc i) (listeners s)"
      by (simp add: Cons_nth_drop_Suc)
    with True 1 show ?thesis
      by (subst lazyLoadLoop.simps) simp
  next
    case False
    then show ?thesis by (subst lazyLoadLoop.simps) simp
  qed
qed

lemma lazyLoadHandler_eq:
  "lazyLoadHandler d s = purgePending (fold (checkVisible d) (listeners s) s)"
  by (simp add: lazyLoadHandler_def lazyLoadLoop_fold)

subsection \<open>What \<open>checkVisible\<close> leaves unchanged\<close>

lemma checkVisible_frame [simp]:
  "pending (set_visible c b s) = pending s"
  "listeners (set_visible c b s) = listeners s"
  "forceUpdates (set_visible c b s) = forceUpdates s"
  "finalLazyLoadHandler (checkVisible d c s) = finalLazyLoadHandler s"
  "next_id (checkVisible d c s) = next_id s"
  "window_scroll (checkVisible d c s) = window_scroll s"
  "window_resize (checkVisible d c s) = window_resize s"
  "container_scroll (checkVisible d c s) = container_scroll s"
  "listened (checkVisible d c s) = listened s"
  "props (comps (checkVisible d c s) c') = props (comps s c')"
  by (simp_all add: checkVisible_def set_visible_def Let_def split: option.split)

text \<open>The equations that evaluate a run on concrete inputs.\<close>

lemmas run_defs = run_def mount_def new_component_def componentDidMount_def createHandler_def
  componentWillUnmount_def state_of_def register_def bindWindow_def bindContainer_def
  unbindWindow_def unbindContainer_def remove_listener_eq lazyLoadHandler_eq purgePending_eq
  checkVisible_def set_visible_def computedVisible_def checkNormalVisible_def
  checkOverflowVisible_def leading_ok_def trailing_ok_def offsets_def js_index_def
  scrollTop_of_def windowInnerHeight_def snapshot_def box_def page_def panel_def
  onceProps_def overflowProps_def init_def defaultProps_def Let_def

subsection \<open>The effect of \<open>checkVisible\<close> on one element\<close>

lemma checkVisible_forceUpdates:
  "forceUpdates (checkVisible d c s) =
     (if becameVisible d s c then forceUpdates s @ [c] else forceUpdates s)"
  by (simp add: checkVisible_def becameVisible_def set_visible_def Let_def split: option.split)

lemma checkVisible_pending:
  "pending (checkVisible d c s) =
     (if becameVisible d s c \<and> once (props (comps s c)) then pending s @ [c] else pending s)"
  by (simp add: checkVisible_def becameVisible_def set_visible_def Let_def split: option.split)

lemma checkVisible_visible_other:
  "c' \<noteq> c \<Longrightarrow> visible (comps (checkVisible d c s) c') = visible (comps s c')"
  by (simp add: checkVisible_def set_visible_def Let_def split: option.split)

lemma checkVisible_visible_self:
  "becameVisible d s c \<Longrightarrow> visible (comps (checkVisible d c s) c)"
  by (auto simp: checkVisible_def becameVisible_def set_visible_def Let_def split: option.splits)

lemma checkVisible_visible_node:
  "findDOMNode d c = Some n \<Longrightarrow>
   visible (comps (checkVisible d c s) c) = computedVisible d c n (props (comps s c))"
  by (simp add: checkVisible_def set_visible_def Let_def)

lemma count_list_0: "c \<notin> set xs \<Longrightarrow> count_list xs c = 0"
  by (induction xs) auto

lemma once_ok_step:
  assumes J: "once_ok X s" and x: "x \<in> X"
  shows "once_ok (X - {x}) (checkVisible d x s)"
  unfolding once_ok_def
proof (intro allI impI)
  fix c
  let ?s' = "checkVisible d x s"
  assume "once (props (comps ?s' c))"
  then have o: "once (props (comps s c))" by simp
  from J o have cnt: "count_list (forceUpdates s) c \<le> 1"
    and vis: "c \<in> set (forceUpdates s) \<Longrightarrow> c \<in> X \<Longrightarrow> visible (comps s c)"
    and pen: "c \<in> set (forceUpdates s) \<Longrightarrow> c \<in> set (listeners s) \<Longrightarrow> c \<in> set (pending s)"
    by (auto simp: once_ok_def)
  show "count_list (forceUpdates ?s') c \<le> 1 \<and>
        (c \<in> set (forceUpdates ?s') \<longrightarrow>
           (c \<in> X - {x} \<longrightarrow> visible (comps ?s' c)) \<and>
           (c \<in> set (listeners ?s') \<longrightarrow> c \<in> set (pending ?s')))"
  proof (cases "c = x")
    case True
    show ?thesis
    proof (cases "becameVisible d s x")
      case bv: True
      then have "\<not> visible (comps s x)"
        by (auto simp: becameVisible_def split: option.splits)
      with vis x True have "x \<notin> set (forceUpdates s)" by auto
      then have "count_list (forceUpdates s) x = 0" by (rule count_list_0)
      with True bv o show ?thesis
        by (simp add: checkVisible_forceUpdates checkVisible_pending)
    next
      case False
      with True cnt pen show ?thesis
        by (simp add: checkVisible_forceUpdates checkVisible_pending)
    qed
  next
    case False
    with cnt vis pen show ?thesis
      by (auto simp: checkVisible_forceUpdates checkVisible_pending checkVisible_visible_other)
  qed
qed

lemma fold_checkVisible_listeners [simp]:
  "listeners (fold (checkVisible d) xs s) = listeners s"
  by (induction xs arbitrary: s) simp_all

lemma fold_checkVisible_next_id [simp]:
  "next_id (fold (checkVisible d) xs s) = next_id s"
  by (induction xs arbitrary: s) simp_all

lemma fold_checkVisible_window [simp]:
  "window_scroll (fold (checkVisible d) xs s) = window_scroll s"
  "window_resize (fold (checkVisible d) xs s) = window_resize s"
  by (induction xs arbitrary: s) simp_all

lemma fold_checkVisible_props [simp]:
  "props (comps (fold (checkVisible d) xs s) c) = props (comps s c)"
  by (induction xs arbitrary: s) simp_all

lemma once_ok_fold:
  "distinct xs \<Longrightarrow> once_ok (set xs) s \<Longrightarrow> once_ok {} (fold (checkVisible d) xs s)"
proof (induction xs arbitrary: s)
  case Nil
  then show ?case by simp
next
  case (Cons x xs)
  from Cons.prems have "once_ok (set (x # xs) - {x}) (checkVisible d x s)"
    by (intro once_ok_step) simp_all
  moreover from Cons.prems have "set (x # xs) - {x} = set xs" by auto
  ultimately show ?case using Cons by simp
qed

lemma fold_checkVisible_pending_subset:
  "set (pending (fold (checkVisible d) xs s)) \<subseteq> set (pending s) \<union> set xs"
proof (induction xs arbitrary: s)
  case Nil
  show ?case by simp
next
  case (Cons x xs)
  have "set (pending (checkVisible d x s)) \<subseteq> set (pending s) \<union> {x}"
    by (auto simp: checkVisible_pending)
  with Cons [of "checkVisible d x s"] show ?case by auto
qed

lemma fold_checkVisible_forceUpdates_subset:
  "set (forceUpdates (fold (checkVisible d) xs s)) \<subseteq> set (forceUpdates s) \<union> set xs"
proof (induction xs arbitrary: s)
  case Nil
  show ?case by simp
next
  case (Cons x xs)
  have "set (forceUpdates (checkVisible d x s)) \<subseteq> set (forceUpdates s) \<union> {x}"
    by (auto simp: checkVisible_forceUpdates)
  with Cons [of "checkVisible d x s"] show ?case by auto
qed

lemma fold_remove1_filter:
  "distinct xs \<Longrightarrow> fold remove1 ps xs = filter (\<lambda>x. x \<notin> set ps) xs"
proof (induction ps arbitrary: xs)
  case Nil
  then show ?case by simp
next
  case (Cons p ps)
  from Cons.prems have r: "remove1 p xs = filter (\<lambda>x. x \<noteq> p) xs"
    by (simp add: distinct_remove1_removeAll removeAll_filter_not_eq) metis
  from Cons.prems have "distinct (remove1 p xs)" by simp
  then have "fold remove1 ps (remove1 p xs) = filter (\<lambda>x. x \<notin> set ps) (remove1 p xs)"
    by (rule Cons.IH)
  then show ?case by (simp add: r conj_commute)
qed

lemma inv_init: "registry_inv init"
  by (simp add: registry_inv_def init_def once_ok_def)

lemma lazyLoadHandler_fields:
  "distinct (listeners s) \<Longrightarrow>
   listeners (lazyLoadHandler d s) =
     filter (\<lambda>x. x \<notin> set (pending (fold (checkVisible d) (listeners s) s))) (listeners s)"
  "pending (lazyLoadHandler d s) = []"
  "forceUpdates (lazyLoadHandler d s) = forceUpdates (fold (checkVisible d) (listeners s) s)"
  "next_id (lazyLoadHandler d s) = next_id s"
  "comps (lazyLoadHandler d s) = comps (fold (checkVisible d) (listeners s) s)"
  by (simp_all add: lazyLoadHandler_eq purgePending_eq fold_remove1_filter)

lemma once_gone_after_pass:
  assumes "registry_inv s" and "once (props (comps s c))"
    and "c \<in> set (forceUpdates (lazyLoadHandler d s))"
  shows "c \<notin> set (listeners (lazyLoadHandler d s))"
proof -
  let ?s1 = "fold (checkVisible d) (listeners s) s"
  from assms(1) have dist: "distinct (listeners s)" and ok: "once_ok (set (listeners s)) s"
    by (simp_all add: registry_inv_def)
  have "once_ok {} ?s1" using dist ok by (rule once_ok_fold)
  moreover have "once (props (comps ?s1 c))" using assms(2) by simp
  moreover have "c \<in> set (forceUpdates ?s1)" using assms(3) by (simp add: lazyLoadHandler_fields)
  ultimately have "c \<in> set (listeners ?s1) \<longrightarrow> c \<in> set (pending ?s1)"
    unfolding once_ok_def by blast
  then show ?thesis using dist by (auto simp: lazyLoadHandler_fields)
qed

lemma inv_lazyLoadHandler:
  assumes "registry_inv s"
  shows "registry_inv (lazyLoadHandler d s)"
proof -
  let ?s1 = "fold (checkVisible d) (listeners s) s"
  let ?s2 = "lazyLoadHandler d s"
  from assms have dist: "distinct (listeners s)" and ok: "once_ok (set (listeners s)) s"
    and bnd: "\<forall>c \<in> set (listeners s) \<union> set (pending s) \<union> set (forceUpdates s). c < next_id s"
    by (simp_all add: registry_inv_def)
  have ok1: "once_ok {} ?s1" using dist ok by (rule once_ok_fold)
  have d2: "distinct (listeners ?s2)" using dist by (simp add: lazyLoadHandler_fields)
  have b2: "\<forall>c \<in> set (listeners ?s2) \<union> set (pending ?s2) \<union> set (forceUpdates ?s2). c < next_id ?s2"
    using bnd dist fold_checkVisible_forceUpdates_subset [of d "listeners s" s]
    by (auto simp: lazyLoadHandler_fields)
  have o2: "once_ok (set (listeners ?s2)) ?s2"
    unfolding once_ok_def
  proof (intro allI impI conjI)
    fix c assume o: "once (props (comps ?s2 c))"
    then have o1: "once (props (comps ?s1 c))" by (simp add: lazyLoadHandler_fields)
    with ok1 show "count_list (forceUpdates ?s2) c \<le> 1"
      by (simp add: once_ok_def lazyLoadHandler_fields)
    assume u: "c \<in> set (forceUpdates ?s2)"
    from o have os: "once (props (comps s c))" by (simp add: lazyLoadHandler_fields)
    from once_gone_after_pass [OF assms os u] have g: "c \<notin> set (listeners ?s2)" .
    { assume "c \<in> set (listeners ?s2)" with g show "visible (comps ?s2 c)" by simp }
    { assume "c \<in> set (listeners ?s2)" with g show "c \<in> set (pending ?s2)" by simp }
  qed
  from d2 b2 o2 show ?thesis by (simp add: registry_inv_def)
qed

subsection \<open>Field-wise effect of mounting and unmounting\<close>

lemma createHandler_frame [simp]:
  "listeners (createHandler p s) = listeners s"
  "pending (createHandler p s) = pending s"
  "forceUpdates (createHandler p s) = forceUpdates s"
  "next_id (createHandler p s) = next_id s"
  "comps (createHandler p s) = comps s"
  "window_scroll (createHandler p s) = window_scroll s"
  "window_resize (createHandler p s) = window_resize s"
  by (simp_all add: createHandler_def)

lemma bindContainer_frame [simp]:
  "listeners (bindContainer e s) = listeners s"
  "pending (bindContainer e s) = pending s"
  "forceUpdates (bindContainer e s) = forceUpdates s"
  "next_id (bindContainer e s) = next_id s"
  "comps (bindContainer e s) = comps s"
  by (simp_all add: bindContainer_def)

lemma bindWindow_frame [simp]:
  "listeners (bindWindow p s) = listeners s"
  "pending (bindWindow p s) = pending s"
  "forceUpdates (bindWindow p s) = forceUpdates s"
  "next_id (bindWindow p s) = next_id s"
  "comps (bindWindow p s) = comps s"
  by (simp_all add: bindWindow_def Let_def)

lemma unbindWindow_frame [simp]:
  "listeners (unbindWindow s) = listeners s"
  "pending (unbindWindow s) = pending s"
  "forceUpdates (unbindWindow s) = forceUpdates s"
  "next_id (unbindWindow s) = next_id s"
  "comps (unbindWindow s) = comps s"
  by (simp_all add: unbindWindow_def)

lemma unbindContainer_frame [simp]:
  "listeners (unbindContainer e s) = listeners s"
  "pending (unbindContainer e s) = pending s"
  "forceUpdates (unbindContainer e s) = forceUpdates s"
  "next_id (unbindContainer e s) = next_id s"
  "comps (unbindContainer e s) = comps s"
  by (simp_all add: unbindContainer_def)

lemma new_component_fields [simp]:
  "listeners (new_component p s) = listeners s"
  "pending (new_component p s) = pending s"
  "forceUpdates (new_component p s) = forceUpdates s"
  "next_id (new_component p s) = Suc (next_id s)"
  "comps (new_component p s) = (comps s)(next_id s := \<lparr>props = p, visible = False\<rparr>)"
  "window_scroll (new_component p s) = window_scroll s"
  "window_resize (new_component p s) = window_resize s"
  by (simp_all add: new_component_def)

lemma remove_listener_fields [simp]:
  "listeners (remove_listener c s) = remove1 c (listeners s)"
  "pending (remove_listener c s) = pending s"
  "forceUpdates (remove_listener c s) = forceUpdates s"
  "next_id (remove_listener c s) = next_id s"
  "comps (remove_listener c s) = comps s"
  by (simp_all add: remove_listener_eq)

lemma mount_cases:
  "(allocated p s (state_of (mount p d s)) \<and> listeners (state_of (mount p d s)) = listeners s) \<or>
   (\<exists>s0. state_of (mount p d s) = checkVisible d (next_id s) s0 \<and> allocated p s s0 \<and>
      listeners s0 = listeners s @ [next_id s])"
proof (cases "overflow p")
  case True
  show ?thesis
  proof (cases "scrollParent d (next_id s)")
    case Document
    with True have "state_of (mount p d s) = createHandler p (new_component p s)"
      by (simp add: mount_def componentDidMount_def state_of_def Let_def)
    then show ?thesis by (simp add: allocated_def)
  next
    case (Element e)
    let ?s0 = "(bindContainer e (createHandler p (new_component p s)))
                 \<lparr>listeners := listeners s @ [next_id s]\<rparr>"
    from True Element have "state_of (mount p d s) = checkVisible d (next_id s) ?s0"
      by (simp add: mount_def componentDidMount_def state_of_def register_def Let_def)
    moreover have "allocated p s ?s0" "listeners ?s0 = listeners s @ [next_id s]"
      by (simp_all add: allocated_def)
    ultimately show ?thesis by blast
  qed
next
  case False
  let ?s1 = "createHandler p (new_component p s)"
  let ?s2 = "if listeners s = [] then bindWindow p ?s1 else ?s1"
  let ?s0 = "?s2\<lparr>listeners := listeners s @ [next_id s]\<rparr>"
  from False have "state_of (mount p d s) = checkVisible d (next_id s) ?s0"
    by (simp add: mount_def componentDidMount_def state_of_def register_def Let_def)
  moreover have "allocated p s ?s0" "listeners ?s0 = listeners s @ [next_id s]"
    by (simp_all add: allocated_def)
  ultimately show ?thesis by blast
qed

lemma unmount_fields:
  "listeners (state_of (componentWillUnmount d c s)) = listeners s \<or>
   listeners (state_of (componentWillUnmount d c s)) = remove1 c (listeners s)"
  "pending (state_of (componentWillUnmount d c s)) = pending s"
  "forceUpdates (state_of (componentWillUnmount d c s)) = forceUpdates s"
  "next_id (state_of (componentWillUnmount d c s)) = next_id s"
  "comps (state_of (componentWillUnmount d c s)) = comps s"
  by (simp_all add: componentWillUnmount_def state_of_def split: parent.split)

subsection \<open>The invariant holds along every run\<close>

lemma inv_shrink:
  assumes "registry_inv s" and "distinct (listeners s')" and "set (listeners s') \<subseteq> set (listeners s)"
    and "pending s' = pending s" and "forceUpdates s' = forceUpdates s"
    and "next_id s' = next_id s" and "comps s' = comps s"
  shows "registry_inv s'"
  using assms unfolding registry_inv_def once_ok_def by (simp add: subset_iff) blast

lemma inv_unmount:
  assumes "registry_inv s"
  shows "registry_inv (state_of (componentWillUnmount d c s))"
proof (rule inv_shrink [OF assms])
  from assms have "distinct (listeners s)" by (simp add: registry_inv_def)
  with unmount_fields(1) [of d c s]
  show "distinct (listeners (state_of (componentWillUnmount d c s)))"
    by auto
  from unmount_fields(1) [of d c s]
  show "set (listeners (state_of (componentWillUnmount d c s))) \<subseteq> set (listeners s)"
    using set_remove1_subset [of c "listeners s"] by auto
qed (simp_all only: unmount_fields)

lemma inv_alloc:
  assumes "registry_inv s" and "allocated p s s0"
    and "set (listeners s0) \<subseteq> insert (next_id s) (set (listeners s))"
    and "distinct (listeners s0)"
  shows "registry_inv s0"
proof -
  from assms(1) have bnd: "\<forall>c \<in> set (listeners s) \<union> set (pending s) \<union> set (forceUpdates s). c < next_id s"
    and ok: "once_ok (set (listeners s)) s" by (simp_all add: registry_inv_def)
  from assms(2) have a: "pending s0 = pending s" "forceUpdates s0 = forceUpdates s"
    "next_id s0 = Suc (next_id s)"
    "comps s0 = (comps s)(next_id s := \<lparr>props = p, visible = False\<rparr>)"
    by (simp_all add: allocated_def)
  from bnd have fresh: "next_id s \<notin> set (forceUpdates s)" by auto
  have "once_ok (set (listeners s0)) s0"
    unfolding once_ok_def
  proof (intro allI impI)
    fix c assume o: "once (props (comps s0 c))"
    show "count_list (forceUpdates s0) c \<le> 1 \<and>
        (c \<in> set (forceUpdates s0) \<longrightarrow>
           (c \<in> set (listeners s0) \<longrightarrow> visible (comps s0 c)) \<and>
           (c \<in> set (listeners s0) \<longrightarrow> c \<in> set (pending s0)))"
    proof (cases "c = next_id s")
      case True
      with fresh a show ?thesis by (simp add: count_list_0)
    next
      case False
      with o a have oc: "once (props (comps s c))" by simp
      from False assms(3) have "c \<in> set (listeners s0) \<Longrightarrow> c \<in> set (listeners s)" by auto
      with ok oc False a show ?thesis unfolding once_ok_def by auto
    qed
  qed
  moreover from bnd a assms(3)
  have "\<forall>c \<in> set (listeners s0) \<union> set (pending s0) \<union> set (forceUpdates s0). c < next_id s0"
    by (auto simp: less_Suc_eq)
  ultimately show ?thesis using assms(4) by (simp add: registry_inv_def)
qed

lemma inv_checkVisible_fresh:
  assumes "registry_inv s0" and "x \<in> set (listeners s0)" and "x \<notin> set (forceUpdates s0)"
  shows "registry_inv (checkVisible d x s0)"
proof -
  let ?s' = "checkVisible d x s0"
  from assms(1) have dist: "distinct (listeners s0)"
    and bnd: "\<forall>c \<in> set (listeners s0) \<union> set (pending s0) \<union> set (forceUpdates s0). c < next_id s0"
    and ok: "once_ok (set (listeners s0)) s0" by (simp_all add: registry_inv_def)
  have "once_ok (set (listeners ?s')) ?s'"
    unfolding once_ok_def
  proof (intro allI impI)
    fix c assume "once (props (comps ?s' c))"
    then have o: "once (props (comps s0 c))" by simp
    show "count_list (forceUpdates ?s') c \<le> 1 \<and>
        (c \<in> set (forceUpdates ?s') \<longrightarrow>
           (c \<in> set (listeners ?s') \<longrightarrow> visible (comps ?s' c)) \<and>
           (c \<in> set (listeners ?s') \<longrightarrow> c \<in> set (pending ?s')))"
    proof (cases "c = x")
      case True
      with assms(3) o show ?thesis
        by (simp add: checkVisible_forceUpdates checkVisible_pending count_list_0
            checkVisible_visible_self)
    next
      case False
      with ok o have "count_list (forceUpdates s0) c \<le> 1"
        and "c \<in> set (forceUpdates s0) \<Longrightarrow> c \<in> set (listeners s0) \<Longrightarrow>
             visible (comps s0 c) \<and> c \<in> set (pending s0)"
        unfolding once_ok_def by blast+
      with False show ?thesis
        by (simp add: checkVisible_forceUpdates checkVisible_pending checkVisible_visible_other)
    qed
  qed
  moreover from bnd assms(2)
  have "\<forall>c \<in> set (listeners ?s') \<union> set (pending ?s') \<union> set (forceUpdates ?s'). c < next_id ?s'"
    by (auto simp: checkVisible_forceUpdates checkVisible_pending)
  ultimately show ?thesis using dist by (simp add: registry_inv_def)
qed

lemma inv_mount:
  assumes "registry_inv s"
  shows "registry_inv (state_of (mount p d s))"
proof -
  from assms have dist: "distinct (listeners s)"
    and bnd: "\<forall>c \<in> set (listeners s) \<union> set (pending s) \<union> set (forceUpdates s). c < next_id s"
    by (simp_all add: registry_inv_def)
  from bnd have fresh: "next_id s \<notin> set (listeners s)" "next_id s \<notin> set (forceUpdates s)"
    by auto
  from mount_cases [of p s d] show ?thesis
  proof (elim disjE exE conjE)
    assume a: "allocated p s (state_of (mount p d s))"
      and l: "listeners (state_of (mount p d s)) = listeners s"
    show ?thesis
    proof (rule inv_alloc [OF assms a])
      show "set (listeners (state_of (mount p d s))) \<subseteq> insert (next_id s) (set (listeners s))"
        unfolding l by blast
      show "distinct (listeners (state_of (mount p d s)))"
        unfolding l by (rule dist)
    qed
  next
    fix s0
    assume e: "state_of (mount p d s) = checkVisible d (next_id s) s0"
      and a: "allocated p s s0" and l: "listeners s0 = listeners s @ [next_id s]"
    have "registry_inv s0"
    proof (rule inv_alloc [OF assms a])
      show "set (listeners s0) \<subseteq> insert (next_id s) (set (listeners s))"
        unfolding l by simp
      show "distinct (listeners s0)"
        unfolding l using dist fresh(1) by simp
    qed
    moreover from a fresh have "next_id s \<notin> set (forceUpdates s0)" by (simp add: allocated_def)
    moreover have "next_id s \<in> set (listeners s0)" unfolding l by simp
    ultimately have "registry_inv (checkVisible d (next_id s) s0)"
      by (intro inv_checkVisible_fresh)
    then show ?thesis unfolding e .
  qed
qed

lemma inv_step: "registry_inv s \<Longrightarrow> registry_inv (step ev s)"
  by (cases ev) (simp_all add: inv_mount inv_unmount inv_lazyLoadHandler)

lemma inv_run: "registry_inv s \<Longrightarrow> registry_inv (run evs s)"
  unfolding run_def by (induction evs arbitrary: s) (simp_all add: inv_step)

lemma mount_listeners:
  "(listeners (state_of (mount p d s)) = listeners s \<or>
    listeners (state_of (mount p d s)) = listeners s @ [next_id s]) \<and>
   next_id (state_of (mount p d s)) = Suc (next_id s)"
  using mount_cases [of p s d]
  by (elim disjE exE conjE) (simp_all add: allocated_def)

lemma gone_step:
  assumes "registry_inv s" and "gone c s"
  shows "gone c (step ev s)"
proof -
  from assms(2) have g: "c < next_id s" "c \<notin> set (listeners s)" by (simp_all add: gone_def)
  show ?thesis
  proof (cases ev)
    case (Mount p d)
    from g mount_listeners [of p d s] have "gone c (state_of (mount p d s))"
      unfolding gone_def by (elim conjE disjE) simp_all
    with Mount show ?thesis by simp
  next
    case (Unmount x d)
    from g unmount_fields(1,4) [of d x s] set_remove1_subset [of x "listeners s"]
    have "gone c (state_of (componentWillUnmount d x s))"
      unfolding gone_def by auto
    with Unmount show ?thesis by simp
  next
    case (Fire d)
    from g assms(1) have "gone c (lazyLoadHandler d s)"
      by (simp add: gone_def registry_inv_def lazyLoadHandler_fields)
    with Fire show ?thesis by simp
  qed
qed

lemma gone_run: "registry_inv s \<Longrightarrow> gone c s \<Longrightarrow> gone c (run evs s)"
  unfolding run_def
  by (induction evs arbitrary: s) (simp_all add: inv_step gone_step)

subsection \<open>The redraw log of a pass\<close>

lemma becameVisible_checkVisible_other:
  "c \<noteq> x \<Longrightarrow> becameVisible d (checkVisible d x s) c = becameVisible d s c"
  by (simp add: becameVisible_def checkVisible_visible_other split: option.split)

lemma fold_checkVisible_forceUpdates:
  "distinct xs \<Longrightarrow>
   forceUpdates (fold (checkVisible d) xs s) = forceUpdates s @ filter (becameVisible d s) xs"
proof (induction xs arbitrary: s)
  case Nil
  show ?case by simp
next
  case (Cons x xs)
  then have "distinct xs" and nx: "x \<notin> set xs" by simp_all
  then have "forceUpdates (fold (checkVisible d) xs (checkVisible d x s)) =
      forceUpdates (checkVisible d x s) @ filter (becameVisible d (checkVisible d x s)) xs"
    using Cons.IH by blast
  moreover have "filter (becameVisible d (checkVisible d x s)) xs = filter (becameVisible d s) xs"
    using nx by (intro filter_cong refl becameVisible_checkVisible_other) auto
  ultimately show ?case by (simp add: checkVisible_forceUpdates)
qed

section \<open>Properties\<close>

text \<open>
  Claim C1. The claim: when the first element to mount has a defined \<open>debounce\<close> prop,
  the shared rate limiter is a Debounce wrapper whose interval is that element's debounce
  value when numeric and 300 otherwise; with no debounce preference it is a Throttle
  wrapper whose interval is the element's throttle value when numeric and 300 otherwise.

  The code chooses the wrapper as claimed but reads the interval from the other prop:
  a first element with \<open>debounce = 500\<close> gets Debounce at 300 (not 500), a first element
  with \<open>throttle = 100\<close> gets Throttle at 300 (not 100), and a first element with both
  gets Debounce at 100, the throttle value.
\<close>

theorem first_mount_limiter_reads_other_prop:
  "finalLazyLoadHandler (run [Mount (defaultProps\<lparr>debounce := Number 500\<rparr>) (page 0)] init)
     = Some (Debounce 300) \<and>
   finalLazyLoadHandler (run [Mount (defaultProps\<lparr>throttle := Number 100\<rparr>) (page 0)] init)
     = Some (Throttle 300) \<and>
   finalLazyLoadHandler
     (run [Mount (defaultProps\<lparr>throttle := Number 100, debounce := Number 500\<rparr>) (page 0)] init)
     = Some (Debounce 100)"
  by (simp add: run_def mount_def new_component_def componentDidMount_def createHandler_def
      init_def defaultProps_def state_of_def register_def bindWindow_def Let_def)

text \<open>
  Claim C2. In document mode the visibility test is true iff
  \<open>elementTop \<ge> scrollTop - offsetLeading\<close> and
  \<open>elementBottom - offsetTrailing \<le> scrollTop + viewportHeight\<close>, where
  \<open>elementTop = boundingRect.top + scrollTop\<close> and \<open>elementBottom = elementTop + height\<close>.
  The offsets are those of the element's \<open>offset\<close> prop: a number \<open>x\<close> is both the
  leading and the trailing offset (first conjunct), and an array gives its first entry
  as the leading and its second as the trailing offset (second conjunct). In particular,
  for an element with document top 500 and height 50, offset 0 and viewport height 400,
  the test is false at scroll offset 0 (third conjunct) and true at scroll offset 200
  (fourth conjunct).
\<close>

theorem checkNormalVisible_iff:
  "(offset p = OffsetNum x \<longrightarrow>
      (checkNormalVisible d n p \<longleftrightarrow>
         rect_top n + scrollTop_of d \<ge> scrollTop_of d - x \<and>
         (rect_top n + scrollTop_of d + rect_height n) - x
           \<le> scrollTop_of d + windowInnerHeight d)) \<and>
   (offset q = OffsetArr (a # b # r) \<longrightarrow>
      (checkNormalVisible d' n' q \<longleftrightarrow>
         rect_top n' + scrollTop_of d' \<ge> scrollTop_of d' - a \<and>
         (rect_top n' + scrollTop_of d' + rect_height n') - b
           \<le> scrollTop_of d' + windowInnerHeight d')) \<and>
   (offset p1 = OffsetNum 0 \<and> rect_top n1 + scrollTop_of d1 = 500 \<and> rect_height n1 = 50 \<and>
    windowInnerHeight d1 = 400 \<and> scrollTop_of d1 = 0 \<longrightarrow> \<not> checkNormalVisible d1 n1 p1) \<and>
   (offset p2 = OffsetNum 0 \<and> rect_top n2 + scrollTop_of d2 = 500 \<and> rect_height n2 = 50 \<and>
    windowInnerHeight d2 = 400 \<and> scrollTop_of d2 = 200 \<longrightarrow> checkNormalVisible d2 n2 p2)"
proof (intro conjI impI)
  assume "offset p = OffsetNum x"
  then show "checkNormalVisible d n p \<longleftrightarrow>
         rect_top n + scrollTop_of d \<ge> scrollTop_of d - x \<and>
         (rect_top n + scrollTop_of d + rect_height n) - x
           \<le> scrollTop_of d + windowInnerHeight d"
    by (rule checkNormalVisible_num)
next
  assume "offset q = OffsetArr (a # b # r)"
  then show "checkNormalVisible d' n' q \<longleftrightarrow>
         rect_top n' + scrollTop_of d' \<ge> scrollTop_of d' - a \<and>
         (rect_top n' + scrollTop_of d' + rect_height n') - b
           \<le> scrollTop_of d' + windowInnerHeight d'"
    by (rule checkNormalVisible_arr)
next
  assume h: "offset p1 = OffsetNum 0 \<and> rect_top n1 + scrollTop_of d1 = 500 \<and>
    rect_height n1 = 50 \<and> windowInnerHeight d1 = 400 \<and> scrollTop_of d1 = 0"
  then have "offset p1 = OffsetNum 0" by simp
  from checkNormalVisible_num [OF this] h show "\<not> checkNormalVisible d1 n1 p1" by simp
next
  assume h: "offset p2 = OffsetNum 0 \<and> rect_top n2 + scrollTop_of d2 = 500 \<and>
    rect_height n2 = 50 \<and> windowInnerHeight d2 = 400 \<and> scrollTop_of d2 = 200"
  then have "offset p2 = OffsetNum 0" by simp
  from checkNormalVisible_num [OF this] h show "checkNormalVisible d2 n2 p2" by simp
qed

theorem checkNormalVisible_iff_witness:
  "\<not> checkNormalVisible (snapshot (\<lambda>_. None) (\<lambda>_. Document) 0 400 0 0) (box 500 50 0)
       defaultProps \<and>
   checkNormalVisible (snapshot (\<lambda>_. None) (\<lambda>_. Document) 200 400 0 0) (box 300 50 0)
       defaultProps \<and>
   \<not> checkNormalVisible (snapshot (\<lambda>_. None) (\<lambda>_. Document) 200 400 0 0) (box (- 50) 50 0)
       (defaultProps\<lparr>offset := OffsetNum 0\<rparr>) \<and>
   checkNormalVisible (snapshot (\<lambda>_. None) (\<lambda>_. Document) 200 400 0 0) (box (- 50) 50 0)
       (defaultProps\<lparr>offset := OffsetNum 100\<rparr>) \<and>
   checkNormalVisible (snapshot (\<lambda>_. None) (\<lambda>_. Document) 200 400 0 0) (box 380 50 0)
       (defaultProps\<lparr>offset := OffsetArr [0, 30]\<rparr>) \<and>
   \<not> checkNormalVisible (snapshot (\<lambda>_. None) (\<lambda>_. Document) 200 400 0 0) (box 380 50 0)
       (defaultProps\<lparr>offset := OffsetArr [30, 0]\<rparr>)"
proof -
  let ?d0 = "snapshot (\<lambda>_. None) (\<lambda>_. Document) 0 400 0 0"
  let ?d = "snapshot (\<lambda>_. None) (\<lambda>_. Document) 200 400 0 0"
  have o: "offset defaultProps = OffsetNum 0"
    "offset (defaultProps\<lparr>offset := OffsetNum 0\<rparr>) = OffsetNum 0"
    "offset (defaultProps\<lparr>offset := OffsetNum 100\<rparr>) = OffsetNum 100"
    "offset (defaultProps\<lparr>offset := OffsetArr [0, 30]\<rparr>) = OffsetArr [0, 30]"
    "offset (defaultProps\<lparr>offset := OffsetArr [30, 0]\<rparr>) = OffsetArr [30, 0]"
    by (simp_all add: defaultProps_def)
  from checkNormalVisible_iff [where p = "defaultProps\<lparr>offset := OffsetNum 0\<rparr>" and x = 0
      and d = ?d and n = "box (- 50) 50 0"
      and q = "defaultProps\<lparr>offset := OffsetArr [0, 30]\<rparr>" and a = 0 and b = 30 and r = "[]"
      and d' = ?d and n' = "box 380 50 0"
      and ?p1.0 = defaultProps and ?n1.0 = "box 500 50 0" and ?d1.0 = ?d0
      and ?p2.0 = defaultProps and ?n2.0 = "box 300 50 0" and ?d2.0 = ?d]
    checkNormalVisible_iff [where p = "defaultProps\<lparr>offset := OffsetNum 100\<rparr>" and x = 100
      and d = ?d and n = "box (- 50) 50 0"
      and q = "defaultProps\<lparr>offset := OffsetArr [30, 0]\<rparr>" and a = 30 and b = 0 and r = "[]"
      and d' = ?d and n' = "box 380 50 0"]
    o
  show ?thesis by (simp add: box_def)
qed

text \<open>
  Claim C3. For every element with \<open>once = true\<close>, along every run of the module from
  its initial state, the Hidden-to-Visible transition (each one calls \<open>forceUpdate\<close>
  once) has happened at most once; and when the element has made that transition by the
  end of a check pass, it is absent from the registry after that pass and after every
  later sequence of callbacks, so no later pass meets it.
\<close>

theorem once_semantics:
  assumes "s = run evs init" and "once (props (comps s c))"
  shows "count_list (forceUpdates s) c \<le> 1 \<and>
         (c \<in> set (forceUpdates (lazyLoadHandler d s)) \<longrightarrow>
            c \<notin> set (listeners (run evs' (lazyLoadHandler d s))))"
proof
  have i: "registry_inv s" unfolding assms(1) by (rule inv_run [OF inv_init])
  with assms(2) show "count_list (forceUpdates s) c \<le> 1"
    by (simp add: registry_inv_def once_ok_def)
  show "c \<in> set (forceUpdates (lazyLoadHandler d s)) \<longrightarrow>
            c \<notin> set (listeners (run evs' (lazyLoadHandler d s)))"
  proof
    assume u: "c \<in> set (forceUpdates (lazyLoadHandler d s))"
    have i2: "registry_inv (lazyLoadHandler d s)" using i by (rule inv_lazyLoadHandler)
    from once_gone_after_pass [OF i assms(2) u]
    have "c \<notin> set (listeners (lazyLoadHandler d s))" .
    moreover from i2 u have "c < next_id (lazyLoadHandler d s)" by (simp add: registry_inv_def)
    ultimately have "gone c (lazyLoadHandler d s)" by (simp add: gone_def)
    with i2 have "gone c (run evs' (lazyLoadHandler d s))" by (rule gone_run)
    then show "c \<notin> set (listeners (run evs' (lazyLoadHandler d s)))" by (simp add: gone_def)
  qed
qed

theorem once_semantics_witness:
  "once (props (comps (run [Mount onceProps (page 0)] init) 0)) \<and>
   count_list (forceUpdates (run [Mount onceProps (page 0)] init)) 0 \<le> 1 \<and>
   0 \<in> set (forceUpdates (lazyLoadHandler (page 200) (run [Mount onceProps (page 0)] init))) \<and>
   0 \<notin> set (listeners (run [Fire (page 0), Mount defaultProps (page 200)]
          (lazyLoadHandler (page 200) (run [Mount onceProps (page 0)] init))))"
proof -
  have o: "once (props (comps (run [Mount onceProps (page 0)] init) 0))"
    by (simp add: run_defs)
  have u: "0 \<in> set (forceUpdates (lazyLoadHandler (page 200) (run [Mount onceProps (page 0)] init)))"
    by (simp add: run_defs)
  from once_semantics [OF refl o, of "page 200" "[Fire (page 0), Mount defaultProps (page 200)]"] o u
  show ?thesis by simp
qed

text \<open>
  Claim C4. The claim: whenever the purge at the end of a check pass leaves the registry
  empty, the window scroll and resize listeners are detached at the end of that pass.

  The code detaches the window listeners only in \<open>componentWillUnmount\<close>: a check
  pass never changes the window bindings (first two conjuncts). A \<open>once\<close> element
  mounted out of view binds the window scroll listener; the pass that shows it purges
  it and leaves the registry empty, and the window scroll listener is still bound.
\<close>

theorem purge_to_empty_keeps_window_listener:
  "window_scroll (lazyLoadHandler d s) = window_scroll s \<and>
   window_resize (lazyLoadHandler d s) = window_resize s \<and>
   listeners (run [Mount onceProps (page 0)] init) = [0] \<and>
   window_scroll (run [Mount onceProps (page 0)] init) \<and>
   forceUpdates (run [Mount onceProps (page 0), Fire (page 200)] init) = [0] \<and>
   listeners (run [Mount onceProps (page 0), Fire (page 200)] init) = [] \<and>
   window_scroll (run [Mount onceProps (page 0), Fire (page 200)] init)"
proof (intro conjI)
  show "window_scroll (lazyLoadHandler d s) = window_scroll s"
    by (simp add: lazyLoadHandler_eq purgePending_eq)
  show "window_resize (lazyLoadHandler d s) = window_resize s"
    by (simp add: lazyLoadHandler_eq purgePending_eq)
qed (simp_all add: run_defs)

text \<open>
  Claim C5. The claim: the listen-marker and the scroll listener of a container shared
  by several tracked elements are removed only when the last element using the container
  unmounts; the unmount of one of several leaves the binding unchanged.

  The code removes both on every unmount of an \<open>overflow\<close> element. Two elements mount
  in container 7, which is marked and bound once; after the first unmounts, the second
  is still registered and the container has neither marker nor scroll listener.
\<close>

theorem unmount_one_of_two_unbinds_container:
  "listeners (run [Mount overflowProps panel, Mount overflowProps panel] init) = [0, 1] \<and>
   container_scroll (run [Mount overflowProps panel, Mount overflowProps panel] init) = {7} \<and>
   listened (run [Mount overflowProps panel, Mount overflowProps panel] init) = {7} \<and>
   listeners (run [Mount overflowProps panel, Mount overflowProps panel, Unmount 0 panel] init)
     = [1] \<and>
   container_scroll
     (run [Mount overflowProps panel, Mount overflowProps panel, Unmount 0 panel] init) = {} \<and>
   listened (run [Mount overflowProps panel, Mount overflowProps panel, Unmount 0 panel] init)
     = {}"
  by (simp add: run_defs)

text \<open>
  The visibility check consults the resolved scroll parent and never the \<open>overflow\<close>
  option: an element with \<open>overflow = false\<close> inside a scroll container is checked
  against the container. Mounted in \<open>nested\<close>, such an element is out of the document
  viewport, in view of its container, and \<open>checkVisible\<close> shows it.
\<close>

theorem overflow_false_checked_in_container_counterexample:
  "\<not> overflow defaultProps \<and>
   listeners (run [Mount defaultProps nested] init) = [0] \<and>
   props (comps (run [Mount defaultProps nested] init) 0) = defaultProps \<and>
   findDOMNode nested 0 = Some (box 1000 50 10) \<and>
   \<not> checkNormalVisible nested (box 1000 50 10) defaultProps \<and>
   checkOverflowVisible nested (box 1000 50 10) defaultProps 7 \<and>
   visible (comps (run [Mount defaultProps nested] init) 0) \<and>
   forceUpdates (run [Mount defaultProps nested] init) = [0]"
  by (simp add: run_defs nested_def)

text \<open>
  Claim C6, amended. For every tracked element with a rendered node, the visibility
  check is performed against the document viewport when the element's resolved scroll
  parent is the document, and against that scroll parent when it is a container
  element; the value of the \<open>overflow\<close> option does not change the result.
\<close>

theorem check_mode_by_scroll_parent:
  "(findDOMNode d c = Some n \<longrightarrow>
      visible (comps (checkVisible d c s) c) =
        (case scrollParent d c of
           Document \<Rightarrow> checkNormalVisible d n (props (comps s c))
         | Element e \<Rightarrow> checkOverflowVisible d n (props (comps s c)) e)) \<and>
   computedVisible d c n (p\<lparr>overflow := b\<rparr>) = computedVisible d c n p"
proof (intro conjI impI)
  assume "findDOMNode d c = Some n"
  then show "visible (comps (checkVisible d c s) c) =
        (case scrollParent d c of
           Document \<Rightarrow> checkNormalVisible d n (props (comps s c))
         | Element e \<Rightarrow> checkOverflowVisible d n (props (comps s c)) e)"
    by (simp add: checkVisible_visible_node computedVisible_def split: parent.split)
next
  show "computedVisible d c n (p\<lparr>overflow := b\<rparr>) = computedVisible d c n p"
    by (simp add: computedVisible_def checkNormalVisible_def checkOverflowVisible_def
        split: parent.split)
qed

theorem check_mode_by_scroll_parent_witness:
  "visible (comps (checkVisible nested 0 (run [Mount defaultProps (page 0)] init)) 0) \<and>
   \<not> visible (comps (checkVisible (page 0) 0 (run [Mount overflowProps nested] init)) 0)"
proof -
  have n: "findDOMNode nested 0 = Some (box 1000 50 10)"
     "findDOMNode (page 0) 0 = Some (box 500 50 500)"
    by (simp_all add: run_defs nested_def)
  have p: "props (comps (run [Mount defaultProps (page 0)] init) 0) = defaultProps"
    "props (comps (run [Mount overflowProps nested] init) 0) = overflowProps"
    by (simp_all add: run_defs nested_def)
  have v: "checkOverflowVisible nested (box 1000 50 10) defaultProps 7"
    "\<not> checkNormalVisible (page 0) (box 500 50 500) overflowProps"
    "scrollParent nested 0 = Element 7" "scrollParent (page 0) 0 = Document"
    by (simp_all add: run_defs nested_def)
  from check_mode_by_scroll_parent
      [of nested 0 "box 1000 50 10" "run [Mount defaultProps (page 0)] init"]
    check_mode_by_scroll_parent
      [of "page 0" 0 "box 500 50 500" "run [Mount overflowProps nested] init"]
    n p v
  show ?thesis by simp
qed

text \<open>
  Claim C7. In \<open>checkVisible\<close>, a redraw (\<open>forceUpdate\<close>) is signalled for an element
  exactly when its computed visibility is true and its stored flag was false, and the
  stored flag becomes the computed visibility; a hidden result only clears the stored
  flag; a visible result on a visible element changes nothing; an element without a
  node is skipped. Over a whole check pass on a registry without duplicates, the
  redraws signalled are exactly those of the registered elements that make the
  Hidden-to-Visible transition, in registration order.
\<close>

theorem redraw_exactly_on_hidden_to_visible:
  "(findDOMNode d c = Some n \<longrightarrow>
      forceUpdates (checkVisible d c s) =
        (if computedVisible d c n (props (comps s c)) \<and> \<not> visible (comps s c)
         then forceUpdates s @ [c] else forceUpdates s) \<and>
      visible (comps (checkVisible d c s) c) = computedVisible d c n (props (comps s c)) \<and>
      (\<not> computedVisible d c n (props (comps s c)) \<longrightarrow>
         checkVisible d c s = s\<lparr>comps := (comps s)(c := (comps s c)\<lparr>visible := False\<rparr>)\<rparr>) \<and>
      (computedVisible d c n (props (comps s c)) \<and> visible (comps s c) \<longrightarrow>
         checkVisible d c s = s)) \<and>
   (findDOMNode d c = None \<longrightarrow> checkVisible d c s = s) \<and>
   (distinct (listeners s) \<longrightarrow>
      forceUpdates (lazyLoadHandler d s) =
        forceUpdates s @ filter (becameVisible d s) (listeners s))"
proof (intro conjI impI)
  assume n: "findDOMNode d c = Some n"
  then show "forceUpdates (checkVisible d c s) =
        (if computedVisible d c n (props (comps s c)) \<and> \<not> visible (comps s c)
         then forceUpdates s @ [c] else forceUpdates s)"
    by (simp add: checkVisible_forceUpdates becameVisible_def)
  from n show "visible (comps (checkVisible d c s) c) = computedVisible d c n (props (comps s c))"
    by (rule checkVisible_visible_node)
  { assume "\<not> computedVisible d c n (props (comps s c))"
    with n show "checkVisible d c s = s\<lparr>comps := (comps s)(c := (comps s c)\<lparr>visible := False\<rparr>)\<rparr>"
      by (simp add: checkVisible_def set_visible_def) }
  { assume "computedVisible d c n (props (comps s c)) \<and> visible (comps s c)"
    with n show "checkVisible d c s = s"
      by (simp add: checkVisible_def) }
next
  assume "findDOMNode d c = None"
  then show "checkVisible d c s = s" by (simp add: checkVisible_def)
next
  assume "distinct (listeners s)"
  then show "forceUpdates (lazyLoadHandler d s) =
        forceUpdates s @ filter (becameVisible d s) (listeners s)"
    by (simp add: lazyLoadHandler_fields fold_checkVisible_forceUpdates)
qed

theorem redraw_exactly_on_hidden_to_visible_witness:
  "forceUpdates (checkVisible (page 200) 0 (run [Mount defaultProps (page 0)] init)) = [0] \<and>
   visible (comps (checkVisible (page 200) 0 (run [Mount defaultProps (page 0)] init)) 0) \<and>
   forceUpdates (lazyLoadHandler (page 200) (run [Mount defaultProps (page 0)] init)) = [0] \<and>
   forceUpdates (checkVisible (page 0) 0 (run [Mount defaultProps (page 200)] init)) = [0] \<and>
   \<not> visible (comps (checkVisible (page 0) 0 (run [Mount defaultProps (page 200)] init)) 0)"
proof -
  let ?h = "run [Mount defaultProps (page 0)] init"
  let ?v = "run [Mount defaultProps (page 200)] init"
  have n: "findDOMNode (page 200) 0 = Some (box 300 50 500)"
      "findDOMNode (page 0) 0 = Some (box 500 50 500)"
    by (simp_all add: run_defs)
  have h: "forceUpdates ?h = []" "\<not> visible (comps ?h 0)" "listeners ?h = [0]"
      "computedVisible (page 200) 0 (box 300 50 500) (props (comps ?h 0))"
    by (simp_all add: run_defs)
  have v: "forceUpdates ?v = [0]" "visible (comps ?v 0)"
      "\<not> computedVisible (page 0) 0 (box 500 50 500) (props (comps ?v 0))"
    by (simp_all add: run_defs)
  have b: "becameVisible (page 200) ?h 0"
    using n h by (simp add: becameVisible_def)
  from redraw_exactly_on_hidden_to_visible [of "page 200" 0 "box 300 50 500" ?h]
    redraw_exactly_on_hidden_to_visible [of "page 0" 0 "box 500 50 500" ?v]
    n h v b
  show ?thesis by simp
qed

text \<open>
  Claim C8. For a fixed geometry, the visibility test is monotone in each offset
  component: if it is true with offsets \<open>(a, b)\<close>, it is true with offsets \<open>(a', b')\<close>
  whenever \<open>a \<le> a'\<close> and \<open>b \<le> b'\<close>. This holds for the document test, for the
  container test, and for the test \<open>checkVisible\<close> selects between them.
\<close>

theorem visibility_monotone_in_offsets:
  assumes "js_index (offsets (offset p)) 0 = Some a" "js_index (offsets (offset p)) 1 = Some b"
    and "js_index (offsets (offset p')) 0 = Some a'" "js_index (offsets (offset p')) 1 = Some b'"
    and "a \<le> a'" "b \<le> b'"
  shows "(checkNormalVisible d n p \<longrightarrow> checkNormalVisible d n p') \<and>
         (checkOverflowVisible d n p e \<longrightarrow> checkOverflowVisible d n p' e) \<and>
         (computedVisible d c n p \<longrightarrow> computedVisible d c n p')"
proof -
  have N: "checkNormalVisible d n p \<longrightarrow> checkNormalVisible d n p'"
    using assms by (simp add: checkNormalVisible_char)
  have O: "checkOverflowVisible d n p e \<longrightarrow> checkOverflowVisible d n p' e" for e
    using assms by (simp add: checkOverflowVisible_char)
  show ?thesis using N O by (simp add: computedVisible_def split: parent.split)
qed

theorem visibility_monotone_in_offsets_witness:
  "checkNormalVisible (snapshot (\<lambda>_. None) (\<lambda>_. Document) 0 400 0 300) (box 380 50 30)
      (defaultProps\<lparr>offset := OffsetArr [0, 30]\<rparr>) \<and>
   checkNormalVisible (snapshot (\<lambda>_. None) (\<lambda>_. Document) 0 400 0 300) (box 380 50 30)
      (defaultProps\<lparr>offset := OffsetArr [5, 40]\<rparr>) \<and>
   checkOverflowVisible (snapshot (\<lambda>_. None) (\<lambda>_. Document) 0 400 0 300) (box 380 50 30)
      (defaultProps\<lparr>offset := OffsetArr [5, 40]\<rparr>) 7"
proof -
  let ?d = "snapshot (\<lambda>_. None) (\<lambda>_. Document) 0 400 0 300"
  let ?n = "box 380 50 30"
  let ?p = "defaultProps\<lparr>offset := OffsetArr [0, 30]\<rparr>"
  let ?p' = "defaultProps\<lparr>offset := OffsetArr [5, 40]\<rparr>"
  have i: "js_index (offsets (offset ?p)) 0 = Some 0" "js_index (offsets (offset ?p)) 1 = Some 30"
     "js_index (offsets (offset ?p')) 0 = Some 5" "js_index (offsets (offset ?p')) 1 = Some 40"
    by (simp_all add: offsets_def js_index_def)
  have v: "checkNormalVisible ?d ?n ?p"
    by (simp add: checkNormalVisible_char [OF i(1,2)] box_def)
  have w: "checkOverflowVisible ?d ?n ?p 7"
    by (simp add: checkOverflowVisible_char [OF i(1,2)] box_def snapshot_def)
  from visibility_monotone_in_offsets [OF i, where d = ?d and n = ?n and e = 7] v w
  show ?thesis by simp
qed

text \<open>
  Claim C9. After every complete run of the check pass (the loop over all registered
  elements, then the purge), the pending-removal sequence is empty, whatever the state
  and the browser snapshot the pass started from.
\<close>

theorem lazyLoadHandler_pending_empty: "pending (lazyLoadHandler d s) = []"
  by (simp add: lazyLoadHandler_def purgePending_def)

text \<open>
  Claim C10. Mounting a document-mode element while the registry is non-empty binds no
  window listener: the window bindings are unchanged and the element is registered
  (first conjunct). The emptiness test counts overflow-mode elements: when an
  overflow-mode element is the only one registered, a document-mode element with
  \<open>scroll = true\<close> mounting next is registered with no window listener bound, although
  none was bound before (second conjunct).
\<close>

theorem mount_nonempty_binds_no_window_listener:
  "(\<not> overflow p \<and> listeners s \<noteq> [] \<longrightarrow>
      window_scroll (step (Mount p d) s) = window_scroll s \<and>
      window_resize (step (Mount p d) s) = window_resize s \<and>
      listeners (step (Mount p d) s) = listeners s @ [next_id s]) \<and>
   (scroll defaultProps \<and> \<not> overflow defaultProps \<and>
    listeners (run [Mount overflowProps panel] init) = [0] \<and>
    \<not> window_scroll (run [Mount overflowProps panel] init) \<and>
    \<not> window_resize (run [Mount overflowProps panel] init) \<and>
    listeners (run [Mount overflowProps panel, Mount defaultProps (page 0)] init) = [0, 1] \<and>
    \<not> window_scroll (run [Mount overflowProps panel, Mount defaultProps (page 0)] init) \<and>
    \<not> window_resize (run [Mount overflowProps panel, Mount defaultProps (page 0)] init))"
proof (intro conjI impI)
  assume h: "\<not> overflow p \<and> listeners s \<noteq> []"
  then show "window_scroll (step (Mount p d) s) = window_scroll s"
    by (simp add: mount_def new_component_def componentDidMount_def createHandler_def
        register_def state_of_def Let_def)
  from h show "window_resize (step (Mount p d) s) = window_resize s"
    by (simp add: mount_def new_component_def componentDidMount_def createHandler_def
        register_def state_of_def Let_def)
  from h show "listeners (step (Mount p d) s) = listeners s @ [next_id s]"
    by (simp add: mount_def new_component_def componentDidMount_def createHandler_def
        register_def state_of_def Let_def)
qed (simp_all add: run_defs)

theorem mount_nonempty_binds_no_window_listener_witness:
  "listeners (run [Mount overflowProps panel] init) \<noteq> [] \<and>
   window_scroll (step (Mount defaultProps (page 0)) (run [Mount overflowProps panel] init))
     = False \<and>
   listeners (step (Mount defaultProps (page 0)) (run [Mount overflowProps panel] init))
     = [0, 1]"
proof -
  have h: "\<not> overflow defaultProps \<and> listeners (run [Mount overflowProps panel] init) \<noteq> []"
    by (simp add: run_defs)
  have "window_scroll (run [Mount overflowProps panel] init) = False"
    "listeners (run [Mount overflowProps panel] init) = [0]"
    "next_id (run [Mount overflowProps panel] init) = 1"
    by (simp_all add: run_defs)
  with h mount_nonempty_binds_no_window_listener
    [of defaultProps "run [Mount overflowProps panel] init" "page 0"]
  show ?thesis by simp
qed

end
